theory Spec2Isabelle
  imports Complex_Main "HOL-Library.Word" "HOL-Library.Stream" "HOL-Library.Signed_Division"
    "HOL-Library.AList"
begin

unbundle bit_operations_syntax

section \<open>Conventions of the embedding\<close>

text \<open>
  The program is the culture simulation of \<^verbatim>\<open>sim.go\<close> together with the driver
  loop of \<^verbatim>\<open>main.go\<close> in the variant with the flags \<^verbatim>\<open>-n\<close>, \<^verbatim>\<open>-t\<close>,
  \<^verbatim>\<open>-w\<close> and \<^verbatim>\<open>-c\<close>. The earlier single-file variant has no coverage: its
  \<^verbatim>\<open>createPopulation\<close> populates every cell and its loops test no cell for 0; the
  codec, the colour storage, the neighbourhood and the body of an exchange are the same
  text in both.

  \<^item> Go's \<^verbatim>\<open>int\<close> is modelled by \<^typ>\<open>int\<close>. Culture codes stay below \<open>2 ^ 24\<close>,
    trait positions below 6 and grid indices below \<open>W * W\<close>, so no operation of the
    modelled functions leaves the 64-bit range on the inputs the theorems speak about.
    \<^verbatim>\<open>>>\<close> on a signed value is \<^const>\<open>drop_bit\<close>, \<^verbatim>\<open><<\<close> is \<^const>\<open>push_bit\<close>,
    \<^verbatim>\<open>%\<close> truncates towards zero and is \<open>smod\<close>, \<^verbatim>\<open>/\<close> is \<open>sdiv\<close>.
  \<^item> \<^verbatim>\<open>uint\<close> positions are \<^typ>\<open>nat\<close>, \<^verbatim>\<open>uint8\<close> is \<^typ>\<open>8 word\<close>, \<^verbatim>\<open>uint32\<close> is
    \<^typ>\<open>32 word\<close>.
  \<^item> A run-time panic is a value \<open>Inl e\<close> of the result type \<open>error + 'a\<close>.
  \<^item> The package-level variables \<^verbatim>\<open>cells\<close>, \<^verbatim>\<open>width\<close> and \<^verbatim>\<open>coverage\<close> are
    passed explicitly; a function that assigns to \<^verbatim>\<open>cells\<close> returns the new slice.
\<close>

datatype error = IndexOutOfRange | NilDereference | InvalidArgument | DivideByZero

fun bindE :: "error + 'a \<Rightarrow> ('a \<Rightarrow> error + 'b) \<Rightarrow> error + 'b" where
  "bindE (Inl e) f = Inl e"
| "bindE (Inr x) f = f x"

text \<open>A \<^verbatim>\<open>for ... range\<close> loop whose body may panic: the first panic ends the loop.\<close>

fun foldE :: "('a \<Rightarrow> 's \<Rightarrow> error + 's) \<Rightarrow> 'a list \<Rightarrow> 's \<Rightarrow> error + 's" where
  "foldE f [] s = Inr s"
| "foldE f (x # xs) s = bindE (f x s) (foldE f xs)"

section \<open>Trait codec\<close>

text \<open>\<^verbatim>\<open>var MASKARRAY []int = []int{0xFFFFF0, 0xFFFF0F, 0xFFF0FF, 0xFF0FFF, 0xF0FFFF, 0x0FFFFF}\<close>\<close>

definition MASKARRAY :: "int list" where
  "MASKARRAY = [0xFFFFF0, 0xFFFF0F, 0xFFF0FF, 0xFF0FFF, 0xF0FFFF, 0x0FFFFF]"

text \<open>\<^verbatim>\<open>func extract(n int, pos uint) int { return (n >> (4 * pos)) & 0x00000F }\<close>\<close>

definition "extract" :: "int \<Rightarrow> nat \<Rightarrow> int" where
  "extract n pos = (drop_bit (4 * pos) n) AND 0x00000F"

text \<open>
  \<^verbatim>\<open>func replace(n, replacement int, pos uint) int\<close>: indexing \<^verbatim>\<open>MASKARRAY[pos]\<close>
  panics for \<open>pos \<ge> 6\<close>.
\<close>

definition replace :: "int \<Rightarrow> int \<Rightarrow> nat \<Rightarrow> error + int" where
  "replace n replacement pos =
     (if pos < length MASKARRAY
      then (let i1 = n AND (MASKARRAY ! pos);
                mask2 = push_bit (4 * pos) replacement
            in Inr (i1 XOR mask2))
      else Inl IndexOutOfRange)"

text \<open>\<^verbatim>\<open>func traitDistance(n1, n2 int, pos uint) int\<close>\<close>

definition traitDistance :: "int \<Rightarrow> int \<Rightarrow> nat \<Rightarrow> int" where
  "traitDistance n1 n2 pos =
     (let d = extract n1 pos - extract n2 pos
      in if d < 0 then d * -1 else d)"

text \<open>
  \<^verbatim>\<open>func featureDistance(n1, n2 int) int\<close>: the loop \<^verbatim>\<open>for i := 0; i < 5; i++\<close>
  counts the equal traits, the result is \<^verbatim>\<open>6 - features\<close>.
\<close>

definition featureDistance :: "int \<Rightarrow> int \<Rightarrow> int" where
  "featureDistance n1 n2 =
     (let features =
        fold (\<lambda>i features.
                let f1 = extract n1 i; f2 = extract n2 i
                in if f1 = f2 then features + 1 else features)
             [0..<5] (0::int)
      in 6 - features)"

section \<open>Cells and their colour\<close>

text \<open>
  \<^verbatim>\<open>color.RGBA{R, G, B, A}\<close> of Go's \<^verbatim>\<open>image/color\<close>: four 8-bit channels.
\<close>

datatype Color = RGBA "8 word" "8 word" "8 word" "8 word"

text \<open>
  The method \<^verbatim>\<open>func (c RGBA) RGBA() (r, g, b, a uint32)\<close> of \<^verbatim>\<open>image/color\<close>:
  every channel \<open>v\<close> is widened to 32 bits and returned as \<^verbatim>\<open>v | v << 8\<close>.
\<close>

fun RGBA_values :: "Color \<Rightarrow> 32 word \<times> 32 word \<times> 32 word \<times> 32 word" where
  "RGBA_values (RGBA r g b a) =
     (ucast r OR push_bit 8 (ucast r),
      ucast g OR push_bit 8 (ucast g),
      ucast b OR push_bit 8 (ucast b),
      ucast a OR push_bit 8 (ucast a))"

text \<open>
  \<^verbatim>\<open>type Cell struct { X int; Y int; R int; Color color.Color }\<close>. The field
  \<^verbatim>\<open>Color\<close> is an interface value: \<open>None\<close> is the nil interface of a zero
  \<^verbatim>\<open>Cell\<close>.
\<close>

record Cell =
  X :: int
  Y :: int
  R :: int
  Color :: "Color option"

definition CELLSIZE :: int where
  "CELLSIZE = 10"

text \<open>\<^verbatim>\<open>func getR(i int) uint8\<close>, \<^verbatim>\<open>getG\<close>, \<^verbatim>\<open>getB\<close>: the conversion to
  \<^verbatim>\<open>uint8\<close> keeps the low 8 bits.\<close>

definition getR :: "int \<Rightarrow> 8 word" where
  "getR i = word_of_int ((drop_bit 16 i) AND 0x0000FF)"

definition getG :: "int \<Rightarrow> 8 word" where
  "getG i = word_of_int ((drop_bit 8 i) AND 0x0000FF)"

definition getB :: "int \<Rightarrow> 8 word" where
  "getB i = word_of_int (i AND 0x0000FF)"

text \<open>
  \<^verbatim>\<open>func (c *Cell) getRGB() int\<close>. In Go \<^verbatim>\<open>&\<close> and \<^verbatim>\<open><<\<close> have the same
  precedence and associate to the left, and both bind tighter than \<^verbatim>\<open>+\<close>, so
  \<^verbatim>\<open>r & 0x00FF << 16\<close> is \<^verbatim>\<open>(r & 0x00FF) << 16\<close>. The sum is a \<^verbatim>\<open>uint32\<close>,
  converted to \<^verbatim>\<open>int\<close> without sign. Calling the method of a nil interface panics.
\<close>

definition getRGB :: "Cell \<Rightarrow> error + int" where
  "getRGB c =
     (case Color c of
        None \<Rightarrow> Inl NilDereference
      | Some col \<Rightarrow>
          (case RGBA_values col of
             (r, g, b, _) \<Rightarrow>
               Inr (uint (push_bit 16 (r AND 0x00FF) + push_bit 8 (g AND 0x00FF)
                          + (b AND 0x00FF)))))"

text \<open>\<^verbatim>\<open>func (c *Cell) setRGB(i int)\<close>\<close>

definition setRGB :: "Cell \<Rightarrow> int \<Rightarrow> Cell" where
  "setRGB c i = c\<lparr>Color := Some (RGBA (getR i) (getG i) (getB i) 255)\<rparr>"

text \<open>\<^verbatim>\<open>func createCell(x, y, clr int) (c Cell)\<close>\<close>

definition createCell :: "int \<Rightarrow> int \<Rightarrow> int \<Rightarrow> Cell" where
  "createCell x y clr =
     \<lparr>X = x, Y = y, R = CELLSIZE,
      Color = Some (RGBA (getR clr) (getG clr) (getB clr) 255)\<rparr>"

section \<open>Neighbourhood\<close>

text \<open>
  The functions of \<^verbatim>\<open>main.go\<close> that classify an index and compute its
  neighbours read the package-level grid width (\<^verbatim>\<open>WIDTH\<close>, set by the
  \<^verbatim>\<open>-w\<close> flag in the later variant); here it is the first argument \<open>W\<close>.
  \<^verbatim>\<open>n % WIDTH\<close> panics when the width is 0.
\<close>

definition topLeft :: "int \<Rightarrow> int \<Rightarrow> bool" where
  "topLeft W n = (n = 0)"

definition topRight :: "int \<Rightarrow> int \<Rightarrow> bool" where
  "topRight W n = (n = W - 1)"

definition bottomLeft :: "int \<Rightarrow> int \<Rightarrow> bool" where
  "bottomLeft W n = (n = W * (W - 1))"

definition bottomRight :: "int \<Rightarrow> int \<Rightarrow> bool" where
  "bottomRight W n = (n = (W * W) - 1)"

definition top :: "int \<Rightarrow> int \<Rightarrow> bool" where
  "top W n = (n < W)"

definition left :: "int \<Rightarrow> int \<Rightarrow> error + bool" where
  "left W n = (if W = 0 then Inl DivideByZero else Inr (n smod W = 0))"

definition right :: "int \<Rightarrow> int \<Rightarrow> error + bool" where
  "right W n = (if W = 0 then Inl DivideByZero else Inr (n smod W = W - 1))"

definition bottom :: "int \<Rightarrow> int \<Rightarrow> bool" where
  "bottom W n = (n \<ge> W * (W - 1))"

definition c1 :: "int \<Rightarrow> int \<Rightarrow> int" where "c1 W n = n - W - 1"
definition c2 :: "int \<Rightarrow> int \<Rightarrow> int" where "c2 W n = n - W"
definition c3 :: "int \<Rightarrow> int \<Rightarrow> int" where "c3 W n = n - W + 1"
definition c4 :: "int \<Rightarrow> int \<Rightarrow> int" where "c4 W n = n - 1"
definition c5 :: "int \<Rightarrow> int \<Rightarrow> int" where "c5 W n = n + 1"
definition c6 :: "int \<Rightarrow> int \<Rightarrow> int" where "c6 W n = n + W - 1"
definition c7 :: "int \<Rightarrow> int \<Rightarrow> int" where "c7 W n = n + W"
definition c8 :: "int \<Rightarrow> int \<Rightarrow> int" where "c8 W n = n + W + 1"

text \<open>
  \<^verbatim>\<open>func findNeighboursIndex(n int) (nb []int)\<close>: the \<^verbatim>\<open>switch\<close> takes the first
  case that holds, in the order of the source.
\<close>

definition findNeighboursIndex :: "int \<Rightarrow> int \<Rightarrow> error + int list" where
  "findNeighboursIndex W n =
     (if topLeft W n then Inr [c5 W n, c7 W n, c8 W n]
      else if topRight W n then Inr [c4 W n, c6 W n, c7 W n]
      else if bottomLeft W n then Inr [c2 W n, c3 W n, c5 W n]
      else if bottomRight W n then Inr [c1 W n, c2 W n, c4 W n]
      else if top W n then Inr [c4 W n, c5 W n, c6 W n, c7 W n, c8 W n]
      else bindE (left W n) (\<lambda>l.
        if l then Inr [c2 W n, c3 W n, c5 W n, c7 W n, c8 W n]
        else bindE (right W n) (\<lambda>r.
          if r then Inr [c1 W n, c2 W n, c4 W n, c6 W n, c7 W n]
          else if bottom W n then Inr [c1 W n, c2 W n, c3 W n, c4 W n, c5 W n]
          else Inr [c1 W n, c2 W n, c3 W n, c4 W n, c5 W n, c6 W n, c7 W n, c8 W n])))"

section \<open>Random draws and floating point\<close>

text \<open>
  The generator of \<^verbatim>\<open>math/rand\<close> is a stream of raw draws, one for every call.
  \<^verbatim>\<open>rand.Intn(n)\<close> panics for \<open>n \<le> 0\<close> and otherwise returns a value of
  \<open>[0, n)\<close>, here the raw draw reduced modulo \<open>n\<close>; \<^verbatim>\<open>rand.Float64()\<close>
  returns a multiple of \<open>2\<^sup>-\<^sup>5\<^sup>3\<close> in \<open>[0, 1)\<close>. Every value the library can return
  is the image of some raw draw, and no other value is.
\<close>

type_synonym rng = "nat stream"

definition Intn :: "int \<Rightarrow> rng \<Rightarrow> error + (int \<times> rng)" where
  "Intn n g = (if n \<le> 0 then Inl InvalidArgument else Inr (int (shd g) mod n, stl g))"

definition Float64 :: "rng \<Rightarrow> rat \<times> rng" where
  "Float64 g = (of_nat (shd g mod 2 ^ 53) / 2 ^ 53, stl g)"

text \<open>
  A \<^verbatim>\<open>float64\<close> is the rational number it denotes, and comparing two of them
  compares these numbers. The result of a floating-point operation is the exact result
  rounded to a \<^verbatim>\<open>float64\<close>; the rounding is the parameter \<open>fl\<close> of the functions
  that compute with floats. The general theorems below hold for every \<open>fl\<close>; the
  concrete runs take the identity, and their comparisons are far from any rounding
  error. The conversion \<^verbatim>\<open>int(x)\<close> of a float drops the fraction.
\<close>

definition float_to_int :: "rat \<Rightarrow> int" where
  "float_to_int x = (if 0 \<le> x then \<lfloor>x\<rfloor> else \<lceil>x\<rceil>)"

section \<open>The grid\<close>

text \<open>\<^verbatim>\<open>cells[i]\<close>: reading or writing outside the slice panics.\<close>

definition cell_at :: "Cell list \<Rightarrow> int \<Rightarrow> error + Cell" where
  "cell_at cells i =
     (if 0 \<le> i \<and> i < int (length cells) then Inr (cells ! nat i) else Inl IndexOutOfRange)"

definition cell_set :: "Cell list \<Rightarrow> int \<Rightarrow> Cell \<Rightarrow> error + Cell list" where
  "cell_set cells i c =
     (if 0 \<le> i \<and> i < int (length cells) then Inr (cells[nat i := c])
      else Inl IndexOutOfRange)"

text \<open>\<^verbatim>\<open>cells[i].getRGB()\<close>\<close>

definition cellRGB :: "Cell list \<Rightarrow> int \<Rightarrow> error + int" where
  "cellRGB cells i = bindE (cell_at cells i) getRGB"

text \<open>\<^verbatim>\<open>cells[i].setRGB(v)\<close>\<close>

definition cellSetRGB :: "Cell list \<Rightarrow> int \<Rightarrow> int \<Rightarrow> error + Cell list" where
  "cellSetRGB cells i v = bindE (cell_at cells i) (\<lambda>c. cell_set cells i (setRGB c v))"

text \<open>
  \<^verbatim>\<open>func createPopulation()\<close> of \<^verbatim>\<open>sim.go\<close>. \<^verbatim>\<open>make([]Cell, *width*(*width))\<close>
  gives zero cells, whose colour is nil; the two nested loops visit the pairs
  \<open>(i, j)\<close> with \<open>1 \<le> i, j \<le> W\<close> in row-major order, the counter \<open>n\<close> runs along.
  The body of the loops is \<open>populateCell\<close>: one sample, and one more draw for the
  code when the sample is below the coverage.
\<close>

definition zeroCell :: Cell where
  "zeroCell = \<lparr>X = 0, Y = 0, R = 0, Color = None\<rparr>"

definition populateCell :: "rat \<Rightarrow> int \<Rightarrow> int \<Rightarrow> rng \<Rightarrow> error + (Cell \<times> rng)" where
  "populateCell coverage i j g =
     (case Float64 g of (p, g1) \<Rightarrow>
        if p < coverage
        then bindE (Intn 0xFFFFFF g1)
               (\<lambda>(clr, g2). Inr (createCell (i * CELLSIZE) (j * CELLSIZE) clr, g2))
        else Inr (createCell (i * CELLSIZE) (j * CELLSIZE) 0x000000, g1))"

definition createPopulation :: "int \<Rightarrow> rat \<Rightarrow> rng \<Rightarrow> error + (Cell list \<times> rng)" where
  "createPopulation W coverage g =
     bindE
       (foldE (\<lambda>(i, j) (cells, n, g).
                 bindE (populateCell coverage i j g)
                   (\<lambda>(c, g'). bindE (cell_set cells n c) (\<lambda>cells'. Inr (cells', n + 1, g'))))
              (List.product [1..W] [1..W])
              (replicate (nat (W * W)) zeroCell, 0, g))
       (\<lambda>(cells, n, g'). Inr (cells, g'))"

text \<open>
  Two notions to speak about the draws of \<^verbatim>\<open>createPopulation\<close>: the generator
  after the draws of one cell, and the generator after the draws of the first \<open>k\<close>
  cells. The auxiliary \<open>drawCode\<close> is the code that one cell receives.
\<close>

definition rngNext :: "rat \<Rightarrow> rng \<Rightarrow> rng" where
  "rngNext coverage g = (case populateCell coverage 0 0 g of Inr (c, g') \<Rightarrow> g' | Inl e \<Rightarrow> g)"

definition rngAfter :: "rat \<Rightarrow> nat \<Rightarrow> rng \<Rightarrow> rng" where
  "rngAfter coverage k g = (rngNext coverage ^^ k) g"

definition drawCode :: "rat \<Rightarrow> rng \<Rightarrow> int" where
  "drawCode coverage g =
     (if fst (Float64 g) < coverage then int (shd (stl g)) mod 0xFFFFFF else 0)"

section \<open>Metrics\<close>

text \<open>\<^verbatim>\<open>func diff(a1, a2 int) int\<close>: five rounds, each reads both cells.\<close>

definition diff :: "Cell list \<Rightarrow> int \<Rightarrow> int \<Rightarrow> error + int" where
  "diff cells a1 a2 =
     foldE (\<lambda>i d.
              bindE (cellRGB cells a1) (\<lambda>v1.
              bindE (cellRGB cells a2) (\<lambda>v2.
              Inr (d + traitDistance v1 v2 i))))
           [0..<5] 0"

text \<open>
  The two loops of \<^verbatim>\<open>featureDistAvg\<close> in \<^verbatim>\<open>sim.go\<close>: they return the
  counter \<^verbatim>\<open>count\<close> and the sum \<^verbatim>\<open>dist\<close>. The only test is on the neighbour.
\<close>

definition featureDistSum :: "int \<Rightarrow> Cell list \<Rightarrow> error + (int \<times> int)" where
  "featureDistSum W cells =
     foldE (\<lambda>c acc.
              bindE (findNeighboursIndex W c) (\<lambda>neighbours.
              foldE (\<lambda>neighbour (count, dist).
                       bindE (cellRGB cells neighbour) (\<lambda>vn.
                       if vn \<noteq> 0x0000
                       then bindE (cellRGB cells c) (\<lambda>v1.
                            bindE (cellRGB cells neighbour) (\<lambda>v2.
                            Inr (count + 1, dist + featureDistance v1 v2)))
                       else Inr (count, dist)))
                    neighbours acc))
           (map int [0..<length cells]) (0, 0)"

text \<open>
  \<^verbatim>\<open>func featureDistAvg() int\<close>:
  \<^verbatim>\<open>return int(float64(dist / *width) * (*coverage))\<close>; the integer division
  panics when the width is 0.
\<close>

definition featureDistAvg :: "(rat \<Rightarrow> rat) \<Rightarrow> int \<Rightarrow> rat \<Rightarrow> Cell list \<Rightarrow> error + int" where
  "featureDistAvg fl W coverage cells =
     bindE (featureDistSum W cells) (\<lambda>(count, dist).
       if W = 0 then Inl DivideByZero
       else Inr (float_to_int (fl (fl (of_int (dist sdiv W)) * coverage))))"

text \<open>
  \<^verbatim>\<open>func similarCount() int\<close>: the map \<^verbatim>\<open>uniques\<close> is an association list with
  one entry for every key.
\<close>

definition similarCount :: "Cell list \<Rightarrow> error + int" where
  "similarCount cells =
     bindE (foldE (\<lambda>c uniques.
                     bindE (getRGB c) (\<lambda>k.
                     bindE (getRGB c) (\<lambda>v.
                     Inr (AList.update k v uniques))))
                  cells [])
           (\<lambda>uniques. Inr (int (length uniques)))"

section \<open>Interactions\<close>

text \<open>
  The body of the loop over the neighbours in \<^verbatim>\<open>main\<close>, from
  \<^verbatim>\<open>d := diff(r, neighbour)\<close> to the end of \<^verbatim>\<open>if dp < probability\<close>; it is the
  same text in both variants of \<^verbatim>\<open>main.go\<close>. The state is the grid, the counter
  \<^verbatim>\<open>chg\<close> and the generator. \<^verbatim>\<open>rand.Intn(6)\<close> is drawn before the test
  \<^verbatim>\<open>d != 0\<close>, \<^verbatim>\<open>rand.Intn(1)\<close> after it. Whichever branch computes \<^verbatim>\<open>rp\<close>,
  the assignment is \<^verbatim>\<open>cells[neighbour].setRGB(rp)\<close>.
\<close>

definition exchange ::
  "(rat \<Rightarrow> rat) \<Rightarrow> int \<Rightarrow> int \<Rightarrow> Cell list \<times> int \<times> rng \<Rightarrow> error + (Cell list \<times> int \<times> rng)"
where
  "exchange fl r neighbour st =
     (case st of (cells, chg, g) \<Rightarrow>
        bindE (diff cells r neighbour) (\<lambda>d.
        let probability = fl (1 - fl (fl (of_int d) / 96.0)) in
        case Float64 g of (dp, g1) \<Rightarrow>
          if dp < probability
          then bindE (Intn 6 g1) (\<lambda>(i, g2).
               if d \<noteq> 0
               then bindE (Intn 1 g2) (\<lambda>(dir, g3).
                    bindE (if dir = 0
                           then bindE (cellRGB cells r) (\<lambda>vr.
                                let replacement = extract vr (nat i) in
                                bindE (cellRGB cells neighbour) (\<lambda>vn.
                                replace vn replacement (nat i)))
                           else bindE (cellRGB cells neighbour) (\<lambda>vn.
                                let replacement = extract vn (nat i) in
                                bindE (cellRGB cells r) (\<lambda>vr.
                                replace vr replacement (nat i))))
                      (\<lambda>rp.
                    bindE (cellSetRGB cells neighbour rp) (\<lambda>cells'.
                    Inr (cells', chg + 1, g3))))
               else Inr (cells, chg, g2))
          else Inr (cells, chg, g1)))"

text \<open>
  The part of one round of the loop \<^verbatim>\<open>for c := 0; c < *interactions; c++\<close> that
  changes the grid: a cell \<open>r\<close> is drawn, and when it is populated every populated
  neighbour goes through \<open>exchange\<close>.
\<close>

definition exchanges ::
  "(rat \<Rightarrow> rat) \<Rightarrow> int \<Rightarrow> Cell list \<times> int \<times> rng \<Rightarrow> error + (Cell list \<times> int \<times> rng)"
where
  "exchanges fl W st =
     (case st of (cells, chg, g) \<Rightarrow>
        bindE (Intn (W * W) g) (\<lambda>(r, g1).
        bindE (cellRGB cells r) (\<lambda>vr.
        if vr \<noteq> 0x0000
        then bindE (findNeighboursIndex W r) (\<lambda>neighbours.
             foldE (\<lambda>neighbour (cells, chg, g).
                      bindE (cellRGB cells neighbour) (\<lambda>vn.
                      if vn \<noteq> 0x0000 then exchange fl r neighbour (cells, chg, g)
                      else Inr (cells, chg, g)))
                   neighbours (cells, chg, g1))
        else Inr (cells, chg, g1))))"

text \<open>
  One full round of that loop: the exchanges, then \<^verbatim>\<open>dist = featureDistAvg()\<close> and
  \<^verbatim>\<open>uniq = similarCount()\<close>. The record holds the grid, the local variables
  \<^verbatim>\<open>chg\<close>, \<^verbatim>\<open>dist\<close>, \<^verbatim>\<open>uniq\<close> of the tick and the generator.
\<close>

record tick_state =
  t_cells :: "Cell list"
  t_chg :: int
  t_dist :: int
  t_uniq :: int
  t_gen :: rng

definition interaction ::
  "(rat \<Rightarrow> rat) \<Rightarrow> int \<Rightarrow> rat \<Rightarrow> tick_state \<Rightarrow> error + tick_state" where
  "interaction fl W coverage s =
     bindE (exchanges fl W (t_cells s, t_chg s, t_gen s)) (\<lambda>(cells', chg', g').
     bindE (featureDistAvg fl W coverage cells') (\<lambda>d.
     bindE (similarCount cells') (\<lambda>u.
     Inr \<lparr>t_cells = cells', t_chg = chg', t_dist = d, t_uniq = u, t_gen = g'\<rparr>)))"

section \<open>Ticks\<close>

text \<open>
  The state of a run: the grid, the generator, the three series that are logged
  (\<^verbatim>\<open>fdistances\<close>, \<^verbatim>\<open>changes\<close>, \<^verbatim>\<open>uniques\<close>, as the integers given to
  \<^verbatim>\<open>strconv.Itoa\<close>, without the header entry) and, for every tick, the exchange
  counter \<^verbatim>\<open>chg\<close> as it is printed.
\<close>

record sim_state =
  grid :: "Cell list"
  source :: rng
  fdistances :: "int list"
  changes :: "int list"
  uniques :: "int list"
  exchangeCount :: "int list"

text \<open>
  One round of the main simulation loop: \<^verbatim>\<open>var dist, chg, uniq int\<close> start at 0,
  \<open>n\<close> interactions follow, the metrics are printed and appended;
  \<^verbatim>\<open>chg / (*width)\<close> panics when the width is 0.
\<close>

definition tick ::
  "(rat \<Rightarrow> rat) \<Rightarrow> int \<Rightarrow> rat \<Rightarrow> int \<Rightarrow> sim_state \<Rightarrow> error + sim_state" where
  "tick fl W coverage n st =
     bindE (foldE (\<lambda>c s. interaction fl W coverage s) [0..n - 1]
              \<lparr>t_cells = grid st, t_chg = 0, t_dist = 0, t_uniq = 0, t_gen = source st\<rparr>)
       (\<lambda>s. if W = 0 then Inl DivideByZero
             else Inr \<lparr>grid = t_cells s, source = t_gen s,
                       fdistances = fdistances st @ [t_dist s],
                       changes = changes st @ [t_chg s sdiv W],
                       uniques = uniques st @ [t_uniq s],
                       exchangeCount = exchangeCount st @ [t_chg s]\<rparr>)"

text \<open>
  \<^verbatim>\<open>main\<close>: the population is created, then \<open>T\<close> ticks run (the tick budget, or
  fewer when Ctrl-Q ends the loop).
\<close>

definition simulate ::
  "(rat \<Rightarrow> rat) \<Rightarrow> int \<Rightarrow> rat \<Rightarrow> int \<Rightarrow> int \<Rightarrow> rng \<Rightarrow> error + sim_state" where
  "simulate fl W coverage n T g =
     bindE (createPopulation W coverage g) (\<lambda>(cells0, g0).
       foldE (\<lambda>t st. tick fl W coverage n st) [0..T - 1]
         \<lparr>grid = cells0, source = g0, fdistances = [], changes = [], uniques = [],
          exchangeCount = []\<rparr>)"

section \<open>Unpopulated grids\<close>

text \<open>
  Two notions to speak about a grid without cultures: in an unpopulated grid no cell
  reads a code other than 0 (a cell with a nil colour cannot be read at all); a grid is
  all zero for the width \<open>W\<close> when it has \<open>W * W\<close> cells and every cell reads 0.
\<close>

definition unpopulated :: "Cell list \<Rightarrow> bool" where
  "unpopulated cells \<longleftrightarrow> (\<forall>c \<in> set cells. \<forall>v. getRGB c = Inr v \<longrightarrow> v = 0)"

definition allZero :: "int \<Rightarrow> Cell list \<Rightarrow> bool" where
  "allZero W cells \<longleftrightarrow> length cells = nat (W * W) \<and> (\<forall>c \<in> set cells. getRGB c = Inr 0)"

section \<open>Grid geometry\<close>

text \<open>
  The grid is a \<open>W \<times> W\<close> square stored in row-major order: index \<open>idx\<close> is the cell
  in row \<open>idx div W\<close> and column \<open>idx mod W\<close>. A corner lies in the first or last
  row and in the first or last column; a border cell lies in the first or last row or
  in the first or last column. These notions state the contract of the neighbourhood;
  the program does not compute them.
\<close>

definition grid_row :: "int \<Rightarrow> int \<Rightarrow> int" where
  "grid_row W idx = idx div W"

definition grid_col :: "int \<Rightarrow> int \<Rightarrow> int" where
  "grid_col W idx = idx mod W"

definition is_corner :: "int \<Rightarrow> int \<Rightarrow> bool" where
  "is_corner W idx \<longleftrightarrow>
     (grid_row W idx = 0 \<or> grid_row W idx = W - 1) \<and>
     (grid_col W idx = 0 \<or> grid_col W idx = W - 1)"

definition is_border :: "int \<Rightarrow> int \<Rightarrow> bool" where
  "is_border W idx \<longleftrightarrow>
     (grid_row W idx = 0 \<or> grid_row W idx = W - 1) \<or>
     (grid_col W idx = 0 \<or> grid_col W idx = W - 1)"

section \<open>Properties of the trait codec\<close>

lemma MASKARRAY_nth:
  "pos < 6 \<Longrightarrow> MASKARRAY ! pos = mask 24 AND NOT (push_bit (4 * pos) (mask 4))"
proof -
  assume "pos < 6"
  then consider "pos = 0" | "pos = 1" | "pos = 2" | "pos = 3" | "pos = 4" | "pos = 5"
    by linarith
  then show ?thesis
    by cases (simp_all add: MASKARRAY_def mask_eq_exp_minus_1)
qed

lemma bit_MASKARRAY:
  "pos < 6 \<Longrightarrow> bit (MASKARRAY ! pos) k \<longleftrightarrow> k < 24 \<and> k div 4 \<noteq> pos"
  by (auto simp: MASKARRAY_nth bit_simps)

lemma extract_take_bit: "extract n pos = take_bit 4 (drop_bit (4 * pos) n)"
  by (simp add: extract_def take_bit_eq_mask mask_eq_exp_minus_1)

lemma bit_extract: "bit (extract n pos) k \<longleftrightarrow> k < 4 \<and> bit n (4 * pos + k)"
  by (simp add: extract_take_bit bit_simps)

lemma extract_range: "0 \<le> extract n pos \<and> extract n pos \<le> 15"
proof -
  have "extract n pos < 2 ^ 4" unfolding extract_take_bit by (rule take_bit_int_less_exp)
  then show ?thesis by (simp add: extract_take_bit)
qed

lemma nibble_bits:
  assumes "0 \<le> v" "v \<le> (15::int)"
  shows "bit v k \<longleftrightarrow> k < 4 \<and> bit v k"
proof -
  have "take_bit 4 v = v" using assms by (simp add: take_bit_int_eq_self)
  then have "bit v k = bit (take_bit 4 v) k" by simp
  then show ?thesis by (simp add: bit_simps)
qed

lemma code_bits:
  assumes "0 \<le> code" "code \<le> (0xFFFFFF::int)"
  shows "bit code k \<longleftrightarrow> k < 24 \<and> bit code k"
proof -
  have "take_bit 24 code = code" using assms by (simp add: take_bit_int_eq_self)
  then have "bit code k = bit (take_bit 24 code) k" by simp
  then show ?thesis by (simp add: bit_simps)
qed

lemma replace_in_range:
  assumes "pos < 6"
  shows "replace n v pos = Inr ((n AND (MASKARRAY ! pos)) XOR push_bit (4 * pos) v)"
  using assms by (simp add: replace_def MASKARRAY_def)

lemma replace_out_of_range: "6 \<le> pos \<Longrightarrow> replace n v pos = Inl IndexOutOfRange"
  by (simp add: replace_def MASKARRAY_def)

lemma featureDistance_count:
  "featureDistance n1 n2
     = 6 - int (length (filter (\<lambda>i. extract n1 i = extract n2 i) [0..<5]))"
  by (simp add: featureDistance_def upt_rec)

text \<open>
  Claim C1. The claim reads the feature distance as 6 minus the number of equal traits
  among all six positions, so that the distance of a code to itself is 0. The loop of
  \<^verbatim>\<open>featureDistance\<close> stops at \<^verbatim>\<open>i < 5\<close> and never looks at position 5, while the
  result is still taken from 6: the distance of every code to itself is 1.
\<close>

theorem featureDistance_self: "featureDistance a a = 1"
  by (simp add: featureDistance_def upt_rec)

text \<open>
  Claim C2. For a value \<open>v\<close> in \<open>[0, 15]\<close>, a position \<open>pos\<close> in \<open>[0, 5]\<close> and a code
  in \<open>[0, 0xFFFFFF]\<close>, \<^verbatim>\<open>replace\<close> returns and \<^verbatim>\<open>extract\<close> reads \<open>v\<close> back at \<open>pos\<close>.
\<close>

theorem extract_replace:
  assumes "0 \<le> v" "v \<le> 15" "pos \<le> 5" "0 \<le> code" "code \<le> 0xFFFFFF"
  shows "\<exists>c. replace code v pos = Inr c \<and> extract c pos = v"
proof -
  let ?c = "(code AND (MASKARRAY ! pos)) XOR push_bit (4 * pos) v"
  from assms(3) have pos: "pos < 6" by simp
  have "extract ?c pos = v"
  proof (rule bit_eqI)
    fix k
    show "bit (extract ?c pos) k = bit v k"
      using nibble_bits [OF assms(1,2), of k] pos
      by (auto simp: bit_extract bit_simps bit_MASKARRAY)
  qed
  then show ?thesis using pos by (simp add: replace_in_range)
qed

theorem extract_replace_witness:
  "(0::int) \<le> 10 \<and> (10::int) \<le> 15 \<and> (3::nat) \<le> 5 \<and> (0::int) \<le> 0x123456
     \<and> (0x123456::int) \<le> 0xFFFFFF
     \<and> (\<exists>c. replace 0x123456 10 3 = Inr c \<and> extract c 3 = 10)"
  using extract_replace [of 10 3 "0x123456"] by simp

text \<open>
  Claim C7. Under the same bounds, \<^verbatim>\<open>replace\<close> leaves every nibble other than
  \<open>pos\<close> as it was: \<^verbatim>\<open>extract\<close> reads the old trait at every other position, and
  every bit outside nibble \<open>pos\<close> is the bit of the input.
\<close>

theorem replace_frame:
  assumes "0 \<le> v" "v \<le> 15" "pos \<le> 5" "0 \<le> code" "code \<le> 0xFFFFFF"
  shows "\<exists>c. replace code v pos = Inr c
             \<and> (\<forall>q. q \<noteq> pos \<longrightarrow> extract c q = extract code q)
             \<and> (\<forall>k. k div 4 \<noteq> pos \<longrightarrow> bit c k = bit code k)"
proof -
  let ?c = "(code AND (MASKARRAY ! pos)) XOR push_bit (4 * pos) v"
  from assms(3) have pos: "pos < 6" by simp
  have bits: "bit ?c k = bit code k" if "k div 4 \<noteq> pos" for k
  proof -
    have "\<not> bit (push_bit (4 * pos) v) k"
      using nibble_bits [OF assms(1,2), of "k - 4 * pos"] that
      by (auto simp: bit_simps)
    then show ?thesis
      using code_bits [OF assms(4,5), of k] that pos
      by (auto simp: bit_simps bit_MASKARRAY)
  qed
  have "extract ?c q = extract code q" if "q \<noteq> pos" for q
  proof (rule bit_eqI)
    fix k
    show "bit (extract ?c q) k = bit (extract code q) k"
    proof (cases "k < 4")
      case True
      then have "(4 * q + k) div 4 \<noteq> pos" using that by simp
      then show ?thesis using bits [of "4 * q + k"] by (simp add: bit_extract)
    next
      case False
      then show ?thesis by (simp add: bit_extract)
    qed
  qed
  then show ?thesis using bits pos by (simp add: replace_in_range)
qed

theorem replace_frame_witness:
  "(0::int) \<le> 10 \<and> (10::int) \<le> 15 \<and> (3::nat) \<le> 5 \<and> (0::int) \<le> 0x123456
     \<and> (0x123456::int) \<le> 0xFFFFFF
     \<and> (\<exists>c. replace 0x123456 10 3 = Inr c
             \<and> (\<forall>q. q \<noteq> 3 \<longrightarrow> extract c q = extract 0x123456 q)
             \<and> (\<forall>k. k div 4 \<noteq> 3 \<longrightarrow> bit c k = bit (0x123456::int) k))"
  using replace_frame [of 10 3 "0x123456"] by simp

section \<open>Properties of the neighbourhood\<close>

lemma smod_nonneg: "0 \<le> n \<Longrightarrow> 0 < W \<Longrightarrow> (n::int) smod W = n mod W"
  by (cases "n = 0") (simp_all add: smod_int_alt_def)

lemma grid_index:
  fixes W q r :: int
  assumes "0 < W" "0 \<le> q" "q < W" "0 \<le> r" "r < W"
  shows "0 \<le> W * q + r" "W * q + r < W * W"
    "(W * q + r) div W = q" "(W * q + r) mod W = r"
proof -
  have "0 \<le> W * q" using assms by simp
  then show "0 \<le> W * q + r" using assms by linarith
  have "W * (q + 1) \<le> W * W" using assms by (intro mult_left_mono) auto
  then show "W * q + r < W * W" using assms by (simp add: algebra_simps)
  show "(W * q + r) div W = q" using assms by simp
  show "(W * q + r) mod W = r" using assms by simp
qed

lemma grid_decompose:
  fixes W idx :: int
  assumes "0 < W" "0 \<le> idx" "idx < W * W"
  obtains q r where "idx = W * q + r" "0 \<le> q" "q < W" "0 \<le> r" "r < W"
proof
  show "idx = W * (idx div W) + idx mod W" by simp
  show "0 \<le> idx div W" using assms by (simp add: pos_imp_zdiv_nonneg_iff)
  show "idx div W < W"
  proof (rule ccontr)
    assume "\<not> idx div W < W"
    then have "W * W \<le> W * (idx div W)" using assms by (intro mult_left_mono) auto
    moreover have "0 \<le> idx mod W" using assms by simp
    moreover have "idx = W * (idx div W) + idx mod W" by simp
    ultimately show False using assms by linarith
  qed
  show "0 \<le> idx mod W" "idx mod W < W" using assms by simp_all
qed

lemma row_products:
  fixes W q :: int
  assumes "0 < W" "0 \<le> q" "q < W"
  shows "q = 0 \<and> W * q = 0 \<or> 1 \<le> q \<and> W \<le> W * q"
    "q = W - 1 \<and> W * q = W * W - W \<or> q \<le> W - 2 \<and> W * q \<le> W * W - 2 * W"
proof -
  show "q = 0 \<and> W * q = 0 \<or> 1 \<le> q \<and> W \<le> W * q"
  proof (cases "q = 0")
    case False
    then have "W * 1 \<le> W * q" using assms by (intro mult_left_mono) auto
    then show ?thesis using False assms by simp
  qed simp
  show "q = W - 1 \<and> W * q = W * W - W \<or> q \<le> W - 2 \<and> W * q \<le> W * W - 2 * W"
  proof (cases "q = W - 1")
    case True
    then show ?thesis by (simp add: right_diff_distrib)
  next
    case False
    then have "W * q \<le> W * (W - 2)" using assms by (intro mult_left_mono) auto
    then show ?thesis using False assms by (simp add: right_diff_distrib)
  qed
qed

lemma classify:
  fixes W q r :: int
  assumes "3 \<le> W" "0 \<le> q" "q < W" "0 \<le> r" "r < W"
  shows "topLeft W (W * q + r) \<longleftrightarrow> q = 0 \<and> r = 0"
    "topRight W (W * q + r) \<longleftrightarrow> q = 0 \<and> r = W - 1"
    "bottomLeft W (W * q + r) \<longleftrightarrow> q = W - 1 \<and> r = 0"
    "bottomRight W (W * q + r) \<longleftrightarrow> q = W - 1 \<and> r = W - 1"
    "top W (W * q + r) \<longleftrightarrow> q = 0"
    "bottom W (W * q + r) \<longleftrightarrow> q = W - 1"
    "left W (W * q + r) = Inr (r = 0)"
    "right W (W * q + r) = Inr (r = W - 1)"
proof -
  have W: "0 < W" using assms by simp
  note p = row_products [OF W assms(2,3)]
  have n0: "0 \<le> W * q + r" using grid_index(1) [OF W assms(2-5)] .
  have md: "(W * q + r) mod W = r" using grid_index(4) [OF W assms(2-5)] .
  show "topLeft W (W * q + r) \<longleftrightarrow> q = 0 \<and> r = 0"
    unfolding topLeft_def using p assms by arith
  show "topRight W (W * q + r) \<longleftrightarrow> q = 0 \<and> r = W - 1"
    unfolding topRight_def using p assms by arith
  show "bottomLeft W (W * q + r) \<longleftrightarrow> q = W - 1 \<and> r = 0"
    unfolding bottomLeft_def right_diff_distrib using p assms by arith
  show "bottomRight W (W * q + r) \<longleftrightarrow> q = W - 1 \<and> r = W - 1"
    unfolding bottomRight_def using p assms by arith
  show "top W (W * q + r) \<longleftrightarrow> q = 0"
    unfolding top_def using p assms by arith
  show "bottom W (W * q + r) \<longleftrightarrow> q = W - 1"
    unfolding bottom_def right_diff_distrib using p assms by arith
  show "left W (W * q + r) = Inr (r = 0)"
    unfolding left_def using W md by (simp add: smod_nonneg [OF n0 W])
  show "right W (W * q + r) = Inr (r = W - 1)"
    unfolding right_def using W md by (simp add: smod_nonneg [OF n0 W])
qed


lemma findNeighboursIndex_grid:
  fixes W q r :: int
  assumes "3 \<le> W" "0 \<le> q" "q < W" "0 \<le> r" "r < W"
  defines "n \<equiv> W * q + r"
  shows "findNeighboursIndex W n = Inr
    (if q = 0 then
       (if r = 0 then [c5 W n, c7 W n, c8 W n]
        else if r = W - 1 then [c4 W n, c6 W n, c7 W n]
        else [c4 W n, c5 W n, c6 W n, c7 W n, c8 W n])
     else if q = W - 1 then
       (if r = 0 then [c2 W n, c3 W n, c5 W n]
        else if r = W - 1 then [c1 W n, c2 W n, c4 W n]
        else [c1 W n, c2 W n, c3 W n, c4 W n, c5 W n])
     else if r = 0 then [c2 W n, c3 W n, c5 W n, c7 W n, c8 W n]
     else if r = W - 1 then [c1 W n, c2 W n, c4 W n, c6 W n, c7 W n]
     else [c1 W n, c2 W n, c3 W n, c4 W n, c5 W n, c6 W n, c7 W n, c8 W n])"
  unfolding findNeighboursIndex_def n_def classify [OF assms(1-5)]
  using assms(1) by simp

lemma neighbour_cell:
  fixes W q r dq dr m :: int
  assumes "0 < W" "0 \<le> q" "q < W" "0 \<le> r" "r < W"
    and "0 \<le> q + dq" "q + dq < W" "0 \<le> r + dr" "r + dr < W"
    and "dq \<noteq> 0 \<or> dr \<noteq> 0"
    and m: "m = W * q + r + W * dq + dr"
  shows "0 \<le> m \<and> m < W * W \<and> m \<noteq> W * q + r
         \<and> grid_row W m = grid_row W (W * q + r) + dq
         \<and> grid_col W m = grid_col W (W * q + r) + dr"
proof -
  have m': "m = W * (q + dq) + (r + dr)" unfolding m by (simp add: algebra_simps)
  note a = grid_index [OF assms(1-5)]
  note b = grid_index [OF assms(1) assms(6-9), folded m']
  have "m \<noteq> W * q + r"
  proof
    assume "m = W * q + r"
    then have "m div W = q" "m mod W = r" using a by simp_all
    then show False using b assms(10) by simp
  qed
  then show ?thesis using a b by (simp add: grid_row_def grid_col_def)
qed


lemma candidates:
  fixes W q r :: int
  assumes "0 < W" "0 \<le> q" "q < W" "0 \<le> r" "r < W"
  defines "n \<equiv> W * q + r"
  defines "P \<equiv> \<lambda>m. 0 \<le> m \<and> m < W * W \<and> m \<noteq> n
                   \<and> \<bar>grid_row W m - grid_row W n\<bar> \<le> 1
                   \<and> \<bar>grid_col W m - grid_col W n\<bar> \<le> 1"
  shows "1 \<le> q \<Longrightarrow> 1 \<le> r \<Longrightarrow> P (c1 W n)"
    and "1 \<le> q \<Longrightarrow> P (c2 W n)"
    and "1 \<le> q \<Longrightarrow> r \<le> W - 2 \<Longrightarrow> P (c3 W n)"
    and "1 \<le> r \<Longrightarrow> P (c4 W n)"
    and "r \<le> W - 2 \<Longrightarrow> P (c5 W n)"
    and "q \<le> W - 2 \<Longrightarrow> 1 \<le> r \<Longrightarrow> P (c6 W n)"
    and "q \<le> W - 2 \<Longrightarrow> P (c7 W n)"
    and "q \<le> W - 2 \<Longrightarrow> r \<le> W - 2 \<Longrightarrow> P (c8 W n)"
proof -
  note nc = neighbour_cell [OF assms(1-5)]
  show "1 \<le> q \<Longrightarrow> 1 \<le> r \<Longrightarrow> P (c1 W n)"
    using nc [of "-1" "-1" "c1 W n"] assms(2-5) by (simp add: P_def n_def c1_def)
  show "1 \<le> q \<Longrightarrow> P (c2 W n)"
    using nc [of "-1" 0 "c2 W n"] assms(2-5) by (simp add: P_def n_def c2_def)
  show "1 \<le> q \<Longrightarrow> r \<le> W - 2 \<Longrightarrow> P (c3 W n)"
    using nc [of "-1" 1 "c3 W n"] assms(2-5) by (simp add: P_def n_def c3_def)
  show "1 \<le> r \<Longrightarrow> P (c4 W n)"
    using nc [of 0 "-1" "c4 W n"] assms(2-5) by (simp add: P_def n_def c4_def)
  show "r \<le> W - 2 \<Longrightarrow> P (c5 W n)"
    using nc [of 0 1 "c5 W n"] assms(2-5) by (simp add: P_def n_def c5_def)
  show "q \<le> W - 2 \<Longrightarrow> 1 \<le> r \<Longrightarrow> P (c6 W n)"
    using nc [of 1 "-1" "c6 W n"] assms(2-5) by (simp add: P_def n_def c6_def)
  show "q \<le> W - 2 \<Longrightarrow> P (c7 W n)"
    using nc [of 1 0 "c7 W n"] assms(2-5) by (simp add: P_def n_def c7_def)
  show "q \<le> W - 2 \<Longrightarrow> r \<le> W - 2 \<Longrightarrow> P (c8 W n)"
    using nc [of 1 1 "c8 W n"] assms(2-5) by (simp add: P_def n_def c8_def)
qed

text \<open>
  Claim C5. On a grid of width \<open>W \<ge> 3\<close>, \<^verbatim>\<open>findNeighboursIndex\<close> returns exactly
  3 indices for a corner, exactly 5 for a border cell that is not a corner and exactly
  8 for an interior cell.
\<close>

theorem neighbour_count:
  assumes "3 \<le> W" "0 \<le> idx" "idx < W * W"
  shows "\<exists>nb. findNeighboursIndex W idx = Inr nb
              \<and> length nb = (if is_corner W idx then 3 else if is_border W idx then 5 else 8)"
proof -
  have W: "0 < W" using assms by simp
  obtain q r where idx: "idx = W * q + r" and qr: "0 \<le> q" "q < W" "0 \<le> r" "r < W"
    using grid_decompose [OF W assms(2,3)] by blast
  have rc: "grid_row W idx = q" "grid_col W idx = r"
    unfolding idx grid_row_def grid_col_def using grid_index(3,4) [OF W qr] by simp_all
  show ?thesis
    unfolding is_corner_def is_border_def rc
    unfolding idx findNeighboursIndex_grid [OF assms(1) qr]
    using assms(1) by simp
qed

theorem neighbour_count_witness:
  "(3::int) \<le> 3 \<and> (0::int) \<le> 4 \<and> (4::int) < 3 * 3
     \<and> (\<exists>nb. findNeighboursIndex 3 4 = Inr nb
            \<and> length nb = (if is_corner 3 4 then 3 else if is_border 3 4 then 5 else 8))"
  using neighbour_count [of 3 4] by simp

lemma neighbours_adjacent:
  assumes "3 \<le> W" "0 \<le> idx" "idx < W * W"
  shows "\<exists>nb. findNeighboursIndex W idx = Inr nb
              \<and> (\<forall>m \<in> set nb. 0 \<le> m \<and> m < W * W \<and> m \<noteq> idx
                     \<and> \<bar>grid_row W m - grid_row W idx\<bar> \<le> 1
                     \<and> \<bar>grid_col W m - grid_col W idx\<bar> \<le> 1)"
proof -
  have W: "0 < W" using assms by simp
  obtain q r where idx: "idx = W * q + r" and qr: "0 \<le> q" "q < W" "0 \<le> r" "r < W"
    using grid_decompose [OF W assms(2,3)] by blast
  note c = candidates [OF W qr, folded idx]
  have q: "q = 0 \<or> q = W - 1 \<or> (1 \<le> q \<and> q \<le> W - 2)" using qr by linarith
  have r: "r = 0 \<or> r = W - 1 \<or> (1 \<le> r \<and> r \<le> W - 2)" using qr by linarith
  show ?thesis
    unfolding findNeighboursIndex_grid [OF assms(1) qr, folded idx]
    using q r assms(1) by (elim disjE conjE; simp add: c)
qed

text \<open>
  Claim C6. On a grid of width \<open>W \<ge> 3\<close>, every index returned by
  \<^verbatim>\<open>findNeighboursIndex\<close> for a cell of the grid is an index of the grid, differs
  from the cell itself, and lies in a row and a column at most one away from those of
  the cell: no neighbour leaves the grid and none wraps around to the other side.
\<close>

theorem neighbours_in_grid:
  assumes "3 \<le> W" "0 \<le> idx" "idx < W * W"
  shows "\<exists>nb. findNeighboursIndex W idx = Inr nb
              \<and> (\<forall>m \<in> set nb. 0 \<le> m \<and> m < W * W \<and> m \<noteq> idx
                     \<and> \<bar>grid_row W m - grid_row W idx\<bar> \<le> 1
                     \<and> \<bar>grid_col W m - grid_col W idx\<bar> \<le> 1)"
  using assms by (rule neighbours_adjacent)

theorem neighbours_in_grid_witness:
  "(3::int) \<le> 3 \<and> (0::int) \<le> 5 \<and> (5::int) < 3 * 3
     \<and> (\<exists>nb. findNeighboursIndex 3 5 = Inr nb
            \<and> (\<forall>m \<in> set nb. 0 \<le> m \<and> m < 3 * 3 \<and> m \<noteq> 5
                   \<and> \<bar>grid_row 3 m - grid_row 3 5\<bar> \<le> 1
                   \<and> \<bar>grid_col 3 m - grid_col 3 5\<bar> \<le> 1))"
  using neighbours_in_grid [of 3 5] by simp

section \<open>Properties of the colour storage\<close>

lemma and_255_int: "(x :: int) AND 255 = take_bit 8 x"
  by (simp add: take_bit_eq_mask mask_eq_exp_minus_1)

lemma and_255_word: "(x :: 32 word) AND 255 = take_bit 8 x"
  by (simp add: take_bit_eq_mask mask_eq_exp_minus_1)

lemma RGBA_low_byte:
  "(ucast (r :: 8 word) OR push_bit 8 (ucast r) :: 32 word) AND 0x00FF = ucast r"
  unfolding and_255_word
  by (rule bit_eqI) (auto simp: bit_simps dest: bit_imp_le_length)

lemma getRGB_Color:
  assumes "Color c = Some (RGBA r g b a)"
  shows "getRGB c
           = Inr (uint (push_bit 16 (ucast r :: 32 word) + push_bit 8 (ucast g) + ucast b))"
  unfolding getRGB_def assms
  by (simp only: RGBA_low_byte option.case RGBA_values.simps prod.case)

lemma uint_channels:
  "uint (getR code) = (code div 65536) mod 256"
  "uint (getG code) = (code div 256) mod 256"
  "uint (getB code) = code mod 256"
  unfolding getR_def getG_def getB_def and_255_int
  by (simp_all add: uint_word_of_int take_bit_eq_mod drop_bit_eq_div)

lemma channels_sum:
  assumes "0 \<le> code" "code \<le> 0xFFFFFF"
  shows "uint (push_bit 16 (ucast (getR code) :: 32 word) + push_bit 8 (ucast (getG code))
          + ucast (getB code)) = code"
proof -
  have "uint (push_bit 16 (ucast (getR code) :: 32 word) + push_bit 8 (ucast (getG code))
          + ucast (getB code))
        = (65536 * ((code div 65536) mod 256) + 256 * ((code div 256) mod 256)
           + code mod 256) mod 2 ^ 32"
    by (simp add: uint_word_ariths push_bit_eq_mult uint_up_ucast is_up uint_channels mod_simps)
  also have "65536 * ((code div 65536) mod 256) + 256 * ((code div 256) mod 256)
             + code mod 256 = code"
  proof -
    define d where "d = code div 256"
    have hi: "code div 65536 = d div 256"
      unfolding d_def by (simp add: zdiv_zmult2_eq [of 256 code 256, simplified])
    have "d < 65536" using assms unfolding d_def by simp
    moreover have "0 \<le> d" using assms unfolding d_def by simp
    ultimately have "0 \<le> d div 256" "d div 256 < 256" by arith+
    then have small: "d div 256 mod 256 = d div 256" by simp
    have e1: "256 * (d div 256) + d mod 256 = d" by (rule mult_div_mod_eq)
    have e2: "256 * d + code mod 256 = code" unfolding d_def by (rule mult_div_mod_eq)
    have "65536 * (d div 256) + 256 * (d mod 256) + code mod 256 = code"
      using e1 e2 by linarith
    then show ?thesis unfolding hi small d_def [symmetric] .
  qed
  also have "code mod 2 ^ 32 = code" using assms by simp
  finally show ?thesis .
qed

lemma getRGB_createCell:
  assumes "0 \<le> code" "code \<le> 0xFFFFFF"
  shows "getRGB (createCell x y code) = Inr code"
  using channels_sum [OF assms] by (simp add: getRGB_Color [where a = 255] createCell_def)

lemma read_after_setRGB:
  assumes "0 \<le> code" "code \<le> 0xFFFFFF"
  shows "getRGB (setRGB c code) = Inr code"
  using channels_sum [OF assms] by (simp add: getRGB_Color [where a = 255] setRGB_def)

text \<open>
  Claim C10. A code in \<open>[0, 0xFFFFFF]\<close> stored in a cell with \<^verbatim>\<open>setRGB\<close> is read
  back unchanged by \<^verbatim>\<open>getRGB\<close>, and the read does not panic.
\<close>

theorem getRGB_setRGB:
  assumes "0 \<le> code" "code \<le> 0xFFFFFF"
  shows "getRGB (setRGB c code) = Inr code"
  using channels_sum [OF assms] by (simp add: getRGB_Color [where a = 255] setRGB_def)

theorem getRGB_setRGB_witness:
  "(0::int) \<le> 0x1A2B3C \<and> (0x1A2B3C::int) \<le> 0xFFFFFF
     \<and> getRGB (setRGB \<lparr>X = 10, Y = 20, R = 10, Color = None\<rparr> 0x1A2B3C) = Inr 0x1A2B3C"
  using getRGB_setRGB [of "0x1A2B3C" "\<lparr>X = 10, Y = 20, R = 10, Color = None\<rparr>"] by simp

section \<open>Properties of the population\<close>

lemma populateCell_eq:
  "populateCell coverage i j g
     = Inr (createCell (i * CELLSIZE) (j * CELLSIZE) (drawCode coverage g), rngNext coverage g)"
  by (simp add: populateCell_def rngNext_def drawCode_def Float64_def Intn_def)

lemma drawCode_range: "0 \<le> drawCode coverage g \<and> drawCode coverage g \<le> 0xFFFFFE"
proof -
  have "int (shd (stl g)) mod 0xFFFFFF < 0xFFFFFF" by (rule pos_mod_bound) simp
  then have "int (shd (stl g)) mod 0xFFFFFF \<le> 0xFFFFFE" by linarith
  then show ?thesis by (simp add: drawCode_def)
qed

lemma populate_fold:
  assumes "n + length ps \<le> length cells"
  shows "\<exists>cells'. foldE (\<lambda>(i, j) (cells, n, g).
                 bindE (populateCell coverage i j g)
                   (\<lambda>(c, g'). bindE (cell_set cells n c) (\<lambda>cells'. Inr (cells', n + 1, g'))))
              ps (cells, int n, g) = Inr (cells', int (n + length ps), rngAfter coverage (length ps) g)
          \<and> length cells' = length cells
          \<and> (\<forall>m < n. cells' ! m = cells ! m)
          \<and> (\<forall>k < length ps. cells' ! (n + k) =
                createCell (fst (ps ! k) * CELLSIZE) (snd (ps ! k) * CELLSIZE)
                  (drawCode coverage (rngAfter coverage k g)))"
  using assms
proof (induction ps arbitrary: cells n g)
  case Nil
  then show ?case by (simp add: rngAfter_def)
next
  case (Cons p ps)
  obtain i j where p: "p = (i, j)" by (cases p)
  let ?c = "createCell (i * CELLSIZE) (j * CELLSIZE) (drawCode coverage g)"
  have n: "n < length cells" using Cons.prems by simp
  have step: "Suc n + length ps \<le> length (cells[n := ?c])" using Cons.prems by simp
  from Cons.IH [OF step, of "rngNext coverage g"]
  obtain cells' where
    run: "foldE (\<lambda>(i, j) (cells, n, g).
                 bindE (populateCell coverage i j g)
                   (\<lambda>(c, g'). bindE (cell_set cells n c) (\<lambda>cells'. Inr (cells', n + 1, g'))))
              ps (cells[n := ?c], int (Suc n), rngNext coverage g)
           = Inr (cells', int (Suc n + length ps), rngAfter coverage (length ps) (rngNext coverage g))"
    and len: "length cells' = length (cells[n := ?c])"
    and old: "\<forall>m < Suc n. cells' ! m = (cells[n := ?c]) ! m"
    and new: "\<forall>k < length ps. cells' ! (Suc n + k) =
                createCell (fst (ps ! k) * CELLSIZE) (snd (ps ! k) * CELLSIZE)
                  (drawCode coverage (rngAfter coverage k (rngNext coverage g)))"
    by blast
  have shift: "rngAfter coverage k (rngNext coverage g) = rngAfter coverage (Suc k) g" for k
    by (simp add: rngAfter_def funpow_swap1)
  have "foldE (\<lambda>(i, j) (cells, n, g).
                 bindE (populateCell coverage i j g)
                   (\<lambda>(c, g'). bindE (cell_set cells n c) (\<lambda>cells'. Inr (cells', n + 1, g'))))
              (p # ps) (cells, int n, g)
        = Inr (cells', int (n + length (p # ps)), rngAfter coverage (length (p # ps)) g)"
    using run n by (simp add: p populateCell_eq cell_set_def shift add.commute)
  moreover have "length cells' = length cells" using len by simp
  moreover have "\<forall>m < n. cells' ! m = cells ! m" using old by simp
  moreover have "\<forall>k < length (p # ps). cells' ! (n + k) =
                createCell (fst ((p # ps) ! k) * CELLSIZE) (snd ((p # ps) ! k) * CELLSIZE)
                  (drawCode coverage (rngAfter coverage k g))"
  proof (intro allI impI)
    fix k assume k: "k < length (p # ps)"
    show "cells' ! (n + k) =
                createCell (fst ((p # ps) ! k) * CELLSIZE) (snd ((p # ps) ! k) * CELLSIZE)
                  (drawCode coverage (rngAfter coverage k g))"
    proof (cases k)
      case 0
      then show ?thesis using old n by (simp add: p rngAfter_def)
    next
      case (Suc k')
      then show ?thesis using new k by (simp add: shift)
    qed
  qed
  ultimately show ?case by blast
qed


lemma length_cell_pairs: "0 \<le> W \<Longrightarrow> length (List.product [1..W] [1..W]) = nat (W * W)"
  by (simp add: nat_mult_distrib)

lemma createPopulation_cells:
  assumes "0 \<le> W"
  shows "\<exists>cells. createPopulation W coverage g = Inr (cells, rngAfter coverage (nat (W * W)) g)
           \<and> length cells = nat (W * W)
           \<and> (\<forall>k < nat (W * W).
                 getRGB (cells ! k) = Inr (drawCode coverage (rngAfter coverage k g)))"
proof -
  let ?ps = "List.product [1..W] [1..W]"
  have len: "length ?ps = nat (W * W)" using assms by (rule length_cell_pairs)
  have "0 + length ?ps \<le> length (replicate (nat (W * W)) zeroCell)" using len by simp
  from populate_fold [OF this, of coverage g]
  obtain cells where
    run: "foldE (\<lambda>(i, j) (cells, n, g).
                 bindE (populateCell coverage i j g)
                   (\<lambda>(c, g'). bindE (cell_set cells n c) (\<lambda>cells'. Inr (cells', n + 1, g'))))
              ?ps (replicate (nat (W * W)) zeroCell, int 0, g)
           = Inr (cells, int (0 + length ?ps), rngAfter coverage (length ?ps) g)"
    and l: "length cells = length (replicate (nat (W * W)) zeroCell)"
    and new: "\<forall>k < length ?ps. cells ! (0 + k) =
                createCell (fst (?ps ! k) * CELLSIZE) (snd (?ps ! k) * CELLSIZE)
                  (drawCode coverage (rngAfter coverage k g))"
    by blast
  have run': "foldE (\<lambda>(i, j) (cells, n, g).
                 bindE (populateCell coverage i j g)
                   (\<lambda>(c, g'). bindE (cell_set cells n c) (\<lambda>cells'. Inr (cells', n + 1, g'))))
              ?ps (replicate (nat (W * W)) zeroCell, 0, g)
           = Inr (cells, int (nat (W * W)), rngAfter coverage (nat (W * W)) g)"
    using run assms by (simp add: nat_mult_distrib)
  have "createPopulation W coverage g = Inr (cells, rngAfter coverage (nat (W * W)) g)"
    unfolding createPopulation_def by (simp only: run' bindE.simps prod.case)
  moreover have "length cells = nat (W * W)" using l by simp
  moreover have "getRGB (cells ! k) = Inr (drawCode coverage (rngAfter coverage k g))"
    if "k < nat (W * W)" for k
  proof -
    have "k < length ?ps" using that len by simp
    with new have "cells ! k =
                createCell (fst (?ps ! k) * CELLSIZE) (snd (?ps ! k) * CELLSIZE)
                  (drawCode coverage (rngAfter coverage k g))"
      by simp
    then show ?thesis
      using drawCode_range [of coverage "rngAfter coverage k g"]
      by (simp add: getRGB_createCell)
  qed
  ultimately show ?thesis by blast
qed

text \<open>
  Claim C4. The claim gives every cell whose sample was below the coverage a nonzero
  code, so that 0 marks exactly the cells whose sample was not below it. The code
  draws the code of such a cell with \<^verbatim>\<open>rand.Intn(0xFFFFFF)\<close>, which can return 0,
  the value that \<^verbatim>\<open>featureDistAvg\<close> and the interaction loop read as unpopulated.
  On a grid of one cell with coverage 1, the sample 0 is below the coverage, the draw
  for the code is 0, and the cell holds the code 0.
\<close>

theorem populated_cell_zero:
  "createPopulation 1 1 (sconst 0) = Inr ([createCell 10 10 0], sconst 0)
   \<and> fst (Float64 (sconst 0)) < (1::rat)
   \<and> getRGB (createCell 10 10 0) = Inr 0"
  by (simp add: createPopulation_def populateCell_def Float64_def Intn_def cell_set_def
        zeroCell_def CELLSIZE_def upto.simps getRGB_createCell)

section \<open>Properties of the interactions\<close>

lemma Intn_one: "Intn 1 g = Inr (0, stl g)"
  by (simp add: Intn_def)

lemma cell_at_set_other:
  "cell_set cells i c = Inr cells' \<Longrightarrow> k \<noteq> i \<Longrightarrow> cell_at cells' k = cell_at cells k"
  by (auto simp: cell_set_def cell_at_def split: if_splits)

lemma cellSetRGB_other:
  "cellSetRGB cells i v = Inr cells' \<Longrightarrow> k \<noteq> i \<Longrightarrow> cell_at cells' k = cell_at cells k"
  by (cases "cell_at cells i") (auto simp: cellSetRGB_def dest: cell_at_set_other)

lemma bindE_Inr: "bindE m f = Inr y \<longleftrightarrow> (\<exists>x. m = Inr x \<and> f x = Inr y)"
  by (cases m) simp_all

lemma exchange_other_cells:
  assumes run: "exchange fl r neighbour (cells, chg, g) = Inr (cells', chg', g')"
    and k: "k \<noteq> neighbour"
  shows "cell_at cells' k = cell_at cells k"
proof -
  obtain d where d: "diff cells r neighbour = Inr d"
    using run by (cases "diff cells r neighbour") (simp_all add: exchange_def)
  obtain dp g1 where f: "Float64 g = (dp, g1)" by (cases "Float64 g")
  show ?thesis
  proof (cases "dp < fl (1 - fl (fl (of_int d) / 96.0))")
    case False
    then show ?thesis using run by (simp add: exchange_def d f)
  next
    case True
    then obtain i g2 where i: "Intn 6 g1 = Inr (i, g2)"
      using run by (cases "Intn 6 g1") (auto simp: exchange_def d f)
    show ?thesis
    proof (cases "d = 0")
      case True
      then show ?thesis using run \<open>dp < _\<close> by (simp add: exchange_def d f i)
    next
      case False
      obtain dir g3 where dir: "Intn 1 g2 = Inr (dir, g3)" by (simp add: Intn_one)
      from run True False obtain rp where "cellSetRGB cells neighbour rp = Inr cells'"
        by (auto simp: exchange_def d f i dir bindE_Inr simp del: bindE.simps)
      then show ?thesis using k by (rule cellSetRGB_other)
    qed
  qed
qed

lemmas run_defs =
  exchanges_def exchange_def diff_def featureDistSum_def
  createPopulation_def populateCell_def Float64_def Intn_def
  cellRGB_def cellSetRGB_def cell_at_def cell_set_def zeroCell_def CELLSIZE_def
  findNeighboursIndex_def topLeft_def topRight_def bottomLeft_def bottomRight_def
  top_def left_def right_def bottom_def c1_def c2_def c3_def c4_def c5_def c6_def
  c7_def c8_def smod_int_alt_def featureDistance_def traitDistance_def extract_def
  replace_def MASKARRAY_def upt_rec upto.simps getRGB_createCell read_after_setRGB

lemma replicate_nine: "replicate 9 c = [c, c, c, c, c, c, c, c, c]"
  by (simp add: numeral_eq_Suc)

lemma list_update_numeral: "(x # xs)[numeral k := y] = x # xs[pred_numeral k := y]"
  by (simp add: numeral_eq_Suc)

text \<open>
  A cell that \<^verbatim>\<open>createPopulation\<close> populated with the code 0 is treated as empty:
  on a \<open>3 \<times> 3\<close> grid with coverage 1 in which cell 0 drew the code 0 and every other
  cell the code 5, an interaction that draws \<open>r = 0\<close> looks at no neighbour, draws
  nothing more and leaves the grid and the counter as they were.
\<close>

lemma zero_code_cell_skipped:
  "bindE (createPopulation 3 1
            (0 ## 0 ## 0 ## 5 ## 0 ## 5 ## 0 ## 5 ## 0 ## 5 ## 0 ## 5 ## 0 ## 5 ## 0 ## 5
               ## 0 ## 5 ## 0 ## g))
     (\<lambda>(cells, g'). bindE (exchanges fl 3 (cells, 0, g'))
        (\<lambda>(cells', chg', g''). Inr (map getRGB cells, cells' = cells, chg', g'')))
   = Inr ([Inr 0, Inr 5, Inr 5, Inr 5, Inr 5, Inr 5, Inr 5, Inr 5, Inr 5], True, 0, g)"
  by (simp add: run_defs replicate_nine list_update_numeral)

text \<open>
  Claim C3. The claim lets the direction draw choose which of the two cells is
  overwritten, so that for some draw it is \<open>r\<close>. In the code the draw is
  \<^verbatim>\<open>rand.Intn(1)\<close>, which is always 0, and the assignment after both branches is
  \<^verbatim>\<open>cells[neighbour].setRGB(rp)\<close>. The run below creates a \<open>3 \<times> 3\<close> grid with
  coverage \<open>1/2\<close> in which only cell 0 (code 1) and cell 1 (code 2) are populated,
  then draws \<open>r = 0\<close>, the sample 0 and the position 0 for the neighbour 1. For every
  raw direction draw \<open>k\<close> the outcome is the same: the neighbour has taken the trait
  of \<open>r\<close>, and \<open>r\<close> holds its code as before. The result lists the codes of the grid
  before and after the interaction, the exchange counter and the generator. In general
  an exchange changes no cell other than the neighbour (\<open>exchange_other_cells\<close>).
\<close>

theorem exchange_direction:
  "bindE (createPopulation 3 (1 / 2)
            (0 ## 1 ## 0 ## 2 ## 2 ^ 52 ## 2 ^ 52 ## 2 ^ 52 ## 2 ^ 52 ## 2 ^ 52 ## 2 ^ 52
               ## 2 ^ 52 ## 0 ## 0 ## 0 ## k ## g))
     (\<lambda>(cells, g'). bindE (exchanges (\<lambda>x. x) 3 (cells, 0, g'))
        (\<lambda>(cells', chg', g''). Inr (map getRGB cells, map getRGB cells', chg', g'')))
   = Inr ([Inr 1, Inr 2, Inr 0, Inr 0, Inr 0, Inr 0, Inr 0, Inr 0, Inr 0],
          [Inr 1, Inr 1, Inr 0, Inr 0, Inr 0, Inr 0, Inr 0, Inr 0, Inr 0], 1, g)"
  by (simp add: run_defs replicate_nine list_update_numeral)

text \<open>
  Claim C8. The claim counts a pair only when the cell and its neighbour are both
  populated. The loop of \<^verbatim>\<open>featureDistAvg\<close> tests the neighbour only. The run
  below creates a \<open>3 \<times> 3\<close> grid with coverage \<open>1/2\<close> whose centre alone is
  populated (code \<open>0x111111\<close>). No pair has two populated cells, yet each of the
  eight empty cells around the centre adds its distance to the centre: the loop counts
  8 pairs and the sum is 48. The result lists the codes of the grid, \<^verbatim>\<open>count\<close> and
  \<^verbatim>\<open>dist\<close>.
\<close>

theorem featureDistSum_unpopulated:
  "bindE (createPopulation 3 (1 / 2)
            (2 ^ 52 ## 2 ^ 52 ## 2 ^ 52 ## 2 ^ 52 ## 0 ## 0x111111 ## sconst (2 ^ 52)))
     (\<lambda>(cells, g'). bindE (featureDistSum 3 cells)
        (\<lambda>(count, dist). Inr (map getRGB cells, count, dist)))
   = Inr ([Inr 0, Inr 0, Inr 0, Inr 0, Inr 0x111111, Inr 0, Inr 0, Inr 0, Inr 0], 8, 48)"
  by (simp add: run_defs replicate_nine list_update_numeral)

lemma cellRGB_unpopulated:
  assumes "unpopulated cells" "cellRGB cells i = Inr v"
  shows "v = 0"
proof -
  from assms(2) have "0 \<le> i \<and> i < int (length cells)" and "getRGB (cells ! nat i) = Inr v"
    by (auto simp: cellRGB_def cell_at_def split: if_splits)
  moreover from this have "nat i < length cells" by linarith
  then have "cells ! nat i \<in> set cells" by (rule nth_mem)
  ultimately show ?thesis using assms(1) unfolding unpopulated_def by blast
qed

lemma exchanges_unpopulated:
  assumes "unpopulated cells" "exchanges fl W (cells, chg, g) = Inr (cells', chg', g')"
  shows "cells' = cells \<and> chg' = chg"
proof -
  from assms(2) obtain r g1 where r: "Intn (W * W) g = Inr (r, g1)"
    by (cases "Intn (W * W) g") (auto simp: exchanges_def)
  from assms(2) obtain vr where vr: "cellRGB cells r = Inr vr"
    by (cases "cellRGB cells r") (auto simp: exchanges_def r)
  have "vr = 0" using assms(1) vr by (rule cellRGB_unpopulated)
  then show ?thesis using assms(2) by (simp add: exchanges_def r vr)
qed

lemma interaction_unpopulated:
  assumes "unpopulated (t_cells s)" "interaction fl W coverage s = Inr s'"
  shows "t_cells s' = t_cells s \<and> t_chg s' = t_chg s"
proof -
  from assms(2) obtain cells' chg' g'
    where e: "exchanges fl W (t_cells s, t_chg s, t_gen s) = Inr (cells', chg', g')"
      and s': "t_cells s' = cells'" "t_chg s' = chg'"
    by (auto simp: interaction_def bindE_Inr)
  from exchanges_unpopulated [OF assms(1) e] show ?thesis using s' by simp
qed

lemma interactions_unpopulated:
  assumes "foldE (\<lambda>c s. interaction fl W coverage s) xs s = Inr s'" "unpopulated (t_cells s)"
  shows "t_cells s' = t_cells s \<and> t_chg s' = t_chg s"
  using assms
proof (induction xs arbitrary: s)
  case Nil
  then show ?case by simp
next
  case (Cons x xs)
  from Cons.prems(1) obtain s1 where s1: "interaction fl W coverage s = Inr s1"
    and rest: "foldE (\<lambda>c s. interaction fl W coverage s) xs s1 = Inr s'"
    by (auto simp: bindE_Inr)
  from interaction_unpopulated [OF Cons.prems(2) s1]
  have eq: "t_cells s1 = t_cells s" "t_chg s1 = t_chg s" by simp_all
  then have "unpopulated (t_cells s1)" using Cons.prems(2) by simp
  from Cons.IH [OF rest this] show ?case using eq by simp
qed

lemma tick_unpopulated:
  assumes "tick fl W coverage n st = Inr st'" "unpopulated (grid st)"
  shows "grid st' = grid st \<and> exchangeCount st' = exchangeCount st @ [0]
         \<and> changes st' = changes st @ [0]"
proof -
  from assms(1) obtain s where
    run: "foldE (\<lambda>c s. interaction fl W coverage s) [0..n - 1]
            \<lparr>t_cells = grid st, t_chg = 0, t_dist = 0, t_uniq = 0, t_gen = source st\<rparr> = Inr s"
    and st': "W \<noteq> 0" "grid st' = t_cells s" "exchangeCount st' = exchangeCount st @ [t_chg s]"
      "changes st' = changes st @ [t_chg s sdiv W]"
    by (auto simp: tick_def bindE_Inr split: if_splits)
  from interactions_unpopulated [OF run] assms(2)
  have "t_cells s = grid st" "t_chg s = 0" by simp_all
  then show ?thesis using st' by simp
qed

lemma ticks_unpopulated:
  assumes "foldE (\<lambda>t st. tick fl W coverage n st) ts st = Inr st'" "unpopulated (grid st)"
  shows "grid st' = grid st
         \<and> exchangeCount st' = exchangeCount st @ replicate (length ts) 0
         \<and> changes st' = changes st @ replicate (length ts) 0"
  using assms
proof (induction ts arbitrary: st)
  case Nil
  then show ?case by simp
next
  case (Cons t ts)
  from Cons.prems(1) obtain st1 where st1: "tick fl W coverage n st = Inr st1"
    and rest: "foldE (\<lambda>t st. tick fl W coverage n st) ts st1 = Inr st'"
    by (auto simp: bindE_Inr)
  note one = tick_unpopulated [OF st1 Cons.prems(2)]
  then have "unpopulated (grid st1)" using Cons.prems(2) by simp
  from Cons.IH [OF rest this] show ?case using one by (simp add: replicate_append_same)
qed

lemma createPopulation_zero_unpopulated:
  assumes "createPopulation W 0 g = Inr (cells0, g0)"
  shows "unpopulated cells0"
proof (cases "0 \<le> W")
  case True
  from createPopulation_cells [OF True, of 0 g] assms
  have len: "length cells0 = nat (W * W)"
    and codes: "\<forall>k < nat (W * W). getRGB (cells0 ! k) = Inr (drawCode 0 (rngAfter 0 k g))"
    by auto
  have "drawCode 0 g' = 0" for g' by (simp add: drawCode_def Float64_def)
  then show ?thesis using codes len by (auto simp: unpopulated_def in_set_conv_nth)
next
  case False
  then have "List.product [1..W] [1..W] = []" by simp
  then have "cells0 = replicate (nat (W * W)) zeroCell"
    using assms by (simp add: createPopulation_def)
  then show ?thesis by (auto simp: unpopulated_def zeroCell_def getRGB_def)
qed


lemma neighbours_in_range:
  assumes "2 \<le> W" "0 \<le> idx" "idx < W * W"
  shows "\<exists>nb. findNeighboursIndex W idx = Inr nb \<and> (\<forall>m \<in> set nb. 0 \<le> m \<and> m < W * W)"
proof (cases "W = 2")
  case True
  then have "idx = 0 \<or> idx = 1 \<or> idx = 2 \<or> idx = 3" using assms by auto
  then show ?thesis
    unfolding True
    by (elim disjE)
       (simp_all add: findNeighboursIndex_def topLeft_def topRight_def bottomLeft_def
          bottomRight_def c1_def c2_def c3_def c4_def c5_def c6_def c7_def c8_def)
next
  case False
  then have "3 \<le> W" using assms by simp
  from neighbours_adjacent [OF this assms(2,3)] show ?thesis by blast
qed

lemma allZero_cellRGB:
  assumes "allZero W cells" "0 \<le> i" "i < W * W"
  shows "cellRGB cells i = Inr 0"
proof -
  have "nat i < length cells" using assms by (simp add: allZero_def nat_less_iff)
  moreover from this have "cells ! nat i \<in> set cells" by (rule nth_mem)
  ultimately show ?thesis using assms by (simp add: cellRGB_def cell_at_def allZero_def)
qed

lemma allZero_unpopulated: "allZero W cells \<Longrightarrow> unpopulated cells"
  by (simp add: allZero_def unpopulated_def)

lemma exchanges_allZero:
  assumes "allZero W cells" "2 \<le> W"
  shows "exchanges fl W (cells, chg, g) = Inr (cells, chg, stl g)"
proof -
  have pos: "0 < W * W" using assms(2) by simp
  then have r: "Intn (W * W) g = Inr (int (shd g) mod (W * W), stl g)" by (simp add: Intn_def)
  have "cellRGB cells (int (shd g) mod (W * W)) = Inr 0"
    using assms(1) pos_mod_sign [OF pos] pos_mod_bound [OF pos] by (rule allZero_cellRGB)
  then show ?thesis by (simp add: exchanges_def r)
qed

lemma featureDistSum_inner_allZero:
  assumes "\<forall>m \<in> set nbs. cellRGB cells m = Inr 0"
  shows "foldE (\<lambda>neighbour (count, dist).
                       bindE (cellRGB cells neighbour) (\<lambda>vn.
                       if vn \<noteq> 0x0000
                       then bindE (cellRGB cells c) (\<lambda>v1.
                            bindE (cellRGB cells neighbour) (\<lambda>v2.
                            Inr (count + 1, dist + featureDistance v1 v2)))
                       else Inr (count, dist)))
                    nbs acc = Inr acc"
  using assms by (induction nbs arbitrary: acc) (auto split: prod.splits)

lemma featureDistSum_allZero:
  assumes "allZero W cells" "2 \<le> W"
  shows "featureDistSum W cells = Inr (0, 0)"
proof -
  have step: "foldE (\<lambda>c acc.
              bindE (findNeighboursIndex W c) (\<lambda>neighbours.
              foldE (\<lambda>neighbour (count, dist).
                       bindE (cellRGB cells neighbour) (\<lambda>vn.
                       if vn \<noteq> 0x0000
                       then bindE (cellRGB cells c) (\<lambda>v1.
                            bindE (cellRGB cells neighbour) (\<lambda>v2.
                            Inr (count + 1, dist + featureDistance v1 v2)))
                       else Inr (count, dist)))
                    neighbours acc))
           cs acc = Inr acc"
    if "\<forall>c \<in> set cs. 0 \<le> c \<and> c < W * W" for cs acc
    using that
  proof (induction cs)
    case Nil
    then show ?case by simp
  next
    case (Cons c cs)
    then have c: "0 \<le> c" "c < W * W" by simp_all
    from neighbours_in_range [OF assms(2) c] obtain nb
      where nb: "findNeighboursIndex W c = Inr nb" "\<forall>m \<in> set nb. 0 \<le> m \<and> m < W * W"
      by blast
    have zero: "\<forall>m \<in> set nb. cellRGB cells m = Inr 0"
      using nb(2) allZero_cellRGB [OF assms(1)] by blast
    show ?case
      using Cons by (simp add: nb(1) featureDistSum_inner_allZero [OF zero])
  qed
  have "\<forall>c \<in> set (map int [0..<length cells]). 0 \<le> c \<and> c < W * W"
    using assms(1) by (auto simp: allZero_def)
  from step [OF this] show ?thesis by (simp add: featureDistSum_def)
qed

lemma similarCount_returns:
  assumes "\<forall>c \<in> set cells. \<exists>v. getRGB c = Inr v"
  shows "\<exists>u. similarCount cells = Inr u"
proof -
  have "\<exists>us. foldE (\<lambda>c uniques.
                     bindE (getRGB c) (\<lambda>k.
                     bindE (getRGB c) (\<lambda>v.
                     Inr (AList.update k v uniques))))
                  cells u0 = Inr us" for u0 :: "(int \<times> int) list"
    using assms by (induction cells arbitrary: u0) auto
  then show ?thesis by (auto simp: similarCount_def bindE_Inr)
qed

lemma interaction_allZero:
  assumes "allZero W (t_cells s)" "2 \<le> W"
  shows "\<exists>s'. interaction fl W coverage s = Inr s' \<and> t_cells s' = t_cells s \<and> t_chg s' = t_chg s"
proof -
  have "\<forall>c \<in> set (t_cells s). \<exists>v. getRGB c = Inr v" using assms(1) by (simp add: allZero_def)
  from similarCount_returns [OF this] obtain u where u: "similarCount (t_cells s) = Inr u" ..
  have "W \<noteq> 0" using assms(2) by simp
  then show ?thesis
    by (simp add: interaction_def exchanges_allZero [OF assms] featureDistAvg_def
          featureDistSum_allZero [OF assms] u)
qed

lemma interactions_allZero:
  assumes "allZero W (t_cells s)" "2 \<le> W"
  shows "\<exists>s'. foldE (\<lambda>c s. interaction fl W coverage s) xs s = Inr s'
              \<and> t_cells s' = t_cells s \<and> t_chg s' = t_chg s"
  using assms(1)
proof (induction xs arbitrary: s)
  case Nil
  then show ?case by simp
next
  case (Cons x xs)
  from interaction_allZero [OF Cons.prems assms(2), of fl coverage] obtain s1
    where s1: "interaction fl W coverage s = Inr s1" "t_cells s1 = t_cells s" "t_chg s1 = t_chg s"
    by blast
  then have "allZero W (t_cells s1)" using Cons.prems by simp
  from Cons.IH [OF this] show ?case using s1 by auto
qed

lemma tick_allZero:
  assumes "allZero W (grid st)" "2 \<le> W"
  shows "\<exists>st'. tick fl W coverage n st = Inr st' \<and> grid st' = grid st"
proof -
  let ?s = "\<lparr>t_cells = grid st, t_chg = 0, t_dist = 0, t_uniq = 0, t_gen = source st\<rparr>"
  have "allZero W (t_cells ?s)" using assms(1) by simp
  from interactions_allZero [OF this assms(2), of fl coverage "[0..n - 1]"] obtain s'
    where "foldE (\<lambda>c s. interaction fl W coverage s) [0..n - 1] ?s = Inr s'"
      "t_cells s' = grid st"
    by auto
  then show ?thesis using assms(2) by (simp add: tick_def)
qed

lemma ticks_allZero:
  assumes "allZero W (grid st)" "2 \<le> W"
  shows "\<exists>st'. foldE (\<lambda>t st. tick fl W coverage n st) ts st = Inr st'"
  using assms(1)
proof (induction ts arbitrary: st)
  case Nil
  then show ?case by simp
next
  case (Cons t ts)
  from tick_allZero [OF Cons.prems assms(2), of fl coverage n] obtain st1
    where st1: "tick fl W coverage n st = Inr st1" "grid st1 = grid st"
    by blast
  then have "allZero W (grid st1)" using Cons.prems by simp
  from Cons.IH [OF this] show ?case using st1 by auto
qed

lemma createPopulation_zero_allZero:
  assumes "0 \<le> W"
  shows "\<exists>cells0 g0. createPopulation W 0 g = Inr (cells0, g0) \<and> allZero W cells0"
proof -
  from createPopulation_cells [OF assms, of 0 g] obtain cells0
    where run: "createPopulation W 0 g = Inr (cells0, rngAfter 0 (nat (W * W)) g)"
      and len: "length cells0 = nat (W * W)"
      and codes: "\<forall>k < nat (W * W). getRGB (cells0 ! k) = Inr (drawCode 0 (rngAfter 0 k g))"
    by blast
  have "drawCode 0 g' = 0" for g' by (simp add: drawCode_def Float64_def)
  then have "allZero W cells0" using codes len by (auto simp: allZero_def in_set_conv_nth)
  then show ?thesis using run by blast
qed


lemma length_ticks: "length [0..T - 1] = nat T"
  by simp

lemma width_one_panics: "simulate fl 1 0 1 1 g = Inl IndexOutOfRange"
  by (simp add: simulate_def createPopulation_def populateCell_def Float64_def cell_set_def
        zeroCell_def upto.simps tick_def interaction_def exchanges_def Intn_def cellRGB_def
        cell_at_def getRGB_createCell featureDistAvg_def featureDistSum_def
        findNeighboursIndex_def topLeft_def c5_def c7_def c8_def)

text \<open>
  Claim C9. With coverage 0, whatever the width, the number \<open>n\<close> of interactions per
  tick, the number \<open>T\<close> of ticks and the draws: a run that ends leaves the grid as
  \<^verbatim>\<open>createPopulation\<close> made it, no cell holds a code other than 0, and the exchange
  counter of every tick is 0 (so is the logged \<^verbatim>\<open>chg / width\<close>). On a width of at
  least 2 the run does end, and all \<open>W * W\<close> cells read 0. (On a width of 1 the
  first interaction panics in \<^verbatim>\<open>featureDistAvg\<close>, whose neighbour indices leave
  the grid.)
\<close>

theorem coverage_zero_no_exchange:
  "(\<forall>st. simulate fl W 0 n T g = Inr st \<longrightarrow>
      (\<exists>g0. createPopulation W 0 g = Inr (grid st, g0))
      \<and> (\<forall>c \<in> set (grid st). \<forall>v. getRGB c = Inr v \<longrightarrow> v = 0)
      \<and> exchangeCount st = replicate (nat T) 0
      \<and> changes st = replicate (nat T) 0)
   \<and> (2 \<le> W \<longrightarrow>
      (\<exists>st. simulate fl W 0 n T g = Inr st
         \<and> length (grid st) = nat (W * W)
         \<and> (\<forall>c \<in> set (grid st). getRGB c = Inr 0)))"
proof (intro conjI allI impI)
  fix st
  assume run: "simulate fl W 0 n T g = Inr st"
  then obtain cells0 g0 where pop: "createPopulation W 0 g = Inr (cells0, g0)"
    and ticks: "foldE (\<lambda>t st. tick fl W 0 n st) [0..T - 1]
         \<lparr>grid = cells0, source = g0, fdistances = [], changes = [], uniques = [],
          exchangeCount = []\<rparr> = Inr st"
    by (auto simp: simulate_def bindE_Inr)
  have u: "unpopulated cells0" using pop by (rule createPopulation_zero_unpopulated)
  from ticks_unpopulated [OF ticks] u
  have res: "grid st = cells0" "exchangeCount st = replicate (nat T) 0"
    "changes st = replicate (nat T) 0"
    by simp_all
  show "\<exists>g0. createPopulation W 0 g = Inr (grid st, g0)" using pop res(1) by blast
  show "\<forall>c \<in> set (grid st). \<forall>v. getRGB c = Inr v \<longrightarrow> v = 0"
    using u res(1) by (simp add: unpopulated_def)
  show "exchangeCount st = replicate (nat T) 0" by (rule res(2))
  show "changes st = replicate (nat T) 0" by (rule res(3))
next
  assume W: "2 \<le> W"
  then have "0 \<le> W" by simp
  from createPopulation_zero_allZero [OF this, of g] obtain cells0 g0
    where pop: "createPopulation W 0 g = Inr (cells0, g0)" and z: "allZero W cells0"
    by blast
  let ?st0 = "\<lparr>grid = cells0, source = g0, fdistances = [], changes = [], uniques = [],
          exchangeCount = []\<rparr>"
  have "allZero W (grid ?st0)" using z by simp
  from ticks_allZero [OF this W, of fl 0 n "[0..T - 1]"] obtain st
    where ticks: "foldE (\<lambda>t st. tick fl W 0 n st) [0..T - 1] ?st0 = Inr st"
    by blast
  have "unpopulated (grid ?st0)" using z by (simp add: allZero_unpopulated)
  from ticks_unpopulated [OF ticks this] have "grid st = cells0" by simp
  moreover have "simulate fl W 0 n T g = Inr st" using pop ticks by (simp add: simulate_def)
  ultimately show "\<exists>st. simulate fl W 0 n T g = Inr st
         \<and> length (grid st) = nat (W * W)
         \<and> (\<forall>c \<in> set (grid st). getRGB c = Inr 0)"
    using z by (auto simp: allZero_def)
qed

theorem coverage_zero_no_exchange_witness:
  "(2::int) \<le> 3 \<and>
   (\<exists>st. simulate (\<lambda>x. x) 3 0 5 4 (sconst 7) = Inr st
      \<and> length (grid st) = 9
      \<and> (\<forall>c \<in> set (grid st). getRGB c = Inr 0)
      \<and> (\<exists>g0. createPopulation 3 0 (sconst 7) = Inr (grid st, g0))
      \<and> exchangeCount st = [0, 0, 0, 0]
      \<and> changes st = [0, 0, 0, 0])"
proof -
  from coverage_zero_no_exchange [of "\<lambda>x. x" 3 5 4 "sconst 7"]
  have a: "\<forall>st. simulate (\<lambda>x. x) 3 0 5 4 (sconst 7) = Inr st \<longrightarrow>
      (\<exists>g0. createPopulation 3 0 (sconst 7) = Inr (grid st, g0))
      \<and> (\<forall>c \<in> set (grid st). \<forall>v. getRGB c = Inr v \<longrightarrow> v = 0)
      \<and> exchangeCount st = replicate (nat 4) 0
      \<and> changes st = replicate (nat 4) 0"
    and b: "\<exists>st. simulate (\<lambda>x. x) 3 0 5 4 (sconst 7) = Inr st
         \<and> length (grid st) = nat (3 * 3)
         \<and> (\<forall>c \<in> set (grid st). getRGB c = Inr 0)"
    by simp_all
  from b obtain st where st: "simulate (\<lambda>x. x) 3 0 5 4 (sconst 7) = Inr st"
    "length (grid st) = nat (3 * 3)" "\<forall>c \<in> set (grid st). getRGB c = Inr 0"
    by blast
  from a st(1) have "\<exists>g0. createPopulation 3 0 (sconst 7) = Inr (grid st, g0)"
    "exchangeCount st = replicate (nat 4) 0" "changes st = replicate (nat 4) 0"
    by blast+
  then show ?thesis using st by (auto simp: numeral_eq_Suc)
qed

end
